theory Spec2Isabelle
  imports Main "HOL-Library.Word"
begin

section \<open>The in-process job queue (package queue, container.go)\<close>

text \<open>
  The development covers a queue between \<open>Start\<close> and \<open>Stop\<close>: the channel is open and
  the context is not cancelled. Go's \<open>int\<close> and \<open>int64\<close> are 64-bit two's complement
  words; comparisons of \<open>Attempts\<close> and \<open>MaxRetry\<close> are signed. Calls of the logger do not
  touch the queue and are left out, and with them the worker id that only they print.
\<close>

subsection \<open>Data model\<close>

datatype JobStatus =
  StatusPending | StatusProcessing | StatusCompleted | StatusFailed | StatusRetrying

text \<open>Time stamps are nanoseconds since the Unix epoch, the reading of \<open>time.Now()\<close>.\<close>

record 'p Job =
  ID :: string
  Type :: string
  Payload :: 'p
  Attempts :: "64 word"
  MaxRetry :: "64 word"
  CreatedAt :: int
  UpdatedAt :: int
  Status :: JobStatus
  Error :: string

record QueueStats =
  Processed :: "64 word"
  Failed :: "64 word"
  Retried :: "64 word"
  Active :: "64 word"

text \<open>
  A \<open>JobHandler\<close> is \<open>func(job *Job) error\<close>. It either returns \<open>nil\<close>, returns an
  error with a message, or panics. Handlers are taken to read the job record only (the
  bookkeeping fields belong to the queue); the natural number is the time the call takes,
  in nanoseconds.
\<close>

datatype handler_result = Succeeds | Fails string | Panics string

type_synonym 'p JobHandler = "'p Job \<Rightarrow> nat \<times> handler_result"

text \<open>
  The effects of a worker that are visible from outside the queue's own fields: a call of
  a handler (with the job's id and attempt number) and a call of \<open>time.Sleep\<close> with its
  argument, a \<open>time.Duration\<close> in nanoseconds.
\<close>

datatype event = Invoked string "64 word" | Slept "64 word"

text \<open>
  The fields of \<open>Queue\<close>. The buffered channel \<open>jobs\<close> is the list of the jobs it holds,
  oldest first. The mutex has no field: each locked section is one atomic update.
  \<open>now\<close> is the wall clock and \<open>trace\<close> the effects so far; both belong to the
  environment and are carried with the queue.
\<close>

record 'p Queue =
  name :: string
  jobs :: "'p Job list"
  handlers :: "string \<rightharpoonup> 'p JobHandler"
  workers :: "64 word"
  stats :: QueueStats
  now :: int
  trace :: "event list"

text \<open>The capacity of the channel, \<open>make(chan *Job, 1000)\<close>.\<close>

definition jobs_cap :: nat where
  "jobs_cap = 1000"

definition NewQueue :: "string \<Rightarrow> 64 word \<Rightarrow> int \<Rightarrow> 'p Queue" where
  "NewQueue nm n t =
     \<lparr>name = nm, jobs = [], handlers = Map.empty, workers = n,
      stats = \<lparr>Processed = 0, Failed = 0, Retried = 0, Active = 0\<rparr>,
      now = t, trace = []\<rparr>"

definition RegisterHandler :: "'p Queue \<Rightarrow> string \<Rightarrow> 'p JobHandler \<Rightarrow> 'p Queue" where
  "RegisterHandler q jobType handler = q\<lparr>handlers := (handlers q)(jobType \<mapsto> handler)\<rparr>"

subsection \<open>Channel, clock and job ids\<close>

text \<open>
  \<open>select { case q.jobs <- job: ... default: ... }\<close>: the send is taken when the buffer
  has room, the default case otherwise; the caller never blocks.
\<close>

definition try_send :: "'p Queue \<Rightarrow> 'p Job \<Rightarrow> 'p Queue option" where
  "try_send q job =
     (if length (jobs q) < jobs_cap then Some (q\<lparr>jobs := jobs q @ [job]\<rparr>) else None)"

definition Size :: "'p Queue \<Rightarrow> nat" where
  "Size q = length (jobs q)"

text \<open>\<open>time.Second\<close> is \<open>1000000000\<close> nanoseconds.\<close>

definition Second :: "64 word" where
  "Second = 1000000000"

text \<open>
  \<open>time.Sleep(d)\<close> pauses for \<open>d\<close>; a negative or zero duration returns immediately.
\<close>

definition Sleep :: "64 word \<Rightarrow> 'p Queue \<Rightarrow> 'p Queue" where
  "Sleep d q =
     q\<lparr>now := now q + (if 0 <s d then sint d else 0), trace := trace q @ [Slept d]\<rparr>"

text \<open>\<open>time.Duration(job.Attempts*job.Attempts) * time.Second\<close>, in 64-bit arithmetic.\<close>

definition retry_delay :: "64 word \<Rightarrow> 64 word" where
  "retry_delay attempts = (attempts * attempts) * Second"

text \<open>\<open>fmt.Sprintf("job_%d", time.Now().UnixNano())\<close>.\<close>

fun decimal :: "nat \<Rightarrow> string" where
  "decimal n =
     (if n < 10 then [char_of (48 + n)]
      else decimal (n div 10) @ [char_of (48 + n mod 10)])"

definition format_d :: "int \<Rightarrow> string" where
  "format_d i = (if i < 0 then CHR ''-'' # decimal (nat (- i)) else decimal (nat i))"

definition generateJobID :: "int \<Rightarrow> string" where
  "generateJobID t = ''job_'' @ format_d t"

subsection \<open>Processing one job\<close>

text \<open>
  A call either returns or panics; in both cases the state it leaves behind is kept.
\<close>

datatype 'a exit = Normal 'a | Panicking string 'a

fun left_behind :: "'a exit \<Rightarrow> 'a" where
  "left_behind (Normal x) = x"
| "left_behind (Panicking msg x) = x"

fun panicked :: "'a exit \<Rightarrow> bool" where
  "panicked (Normal x) = False"
| "panicked (Panicking msg x) = True"

definition bump_active :: "'p Queue \<Rightarrow> 'p Queue" where
  "bump_active q = q\<lparr>stats := (stats q)\<lparr>Active := Active (stats q) + 1\<rparr>\<rparr>"

definition drop_active :: "'p Queue \<Rightarrow> 'p Queue" where
  "drop_active q = q\<lparr>stats := (stats q)\<lparr>Active := Active (stats q) - 1\<rparr>\<rparr>"

definition bump_failed :: "'p Queue \<Rightarrow> 'p Queue" where
  "bump_failed q = q\<lparr>stats := (stats q)\<lparr>Failed := Failed (stats q) + 1\<rparr>\<rparr>"

definition bump_retried :: "'p Queue \<Rightarrow> 'p Queue" where
  "bump_retried q = q\<lparr>stats := (stats q)\<lparr>Retried := Retried (stats q) + 1\<rparr>\<rparr>"

definition bump_processed :: "'p Queue \<Rightarrow> 'p Queue" where
  "bump_processed q = q\<lparr>stats := (stats q)\<lparr>Processed := Processed (stats q) + 1\<rparr>\<rparr>"

text \<open>
  The call \<open>handler(job)\<close>: the clock moves on by the time the handler takes and the
  call is recorded.
\<close>

definition invoke :: "'p JobHandler \<Rightarrow> 'p Job \<Rightarrow> 'p Queue \<Rightarrow> handler_result \<times> 'p Queue" where
  "invoke handler job q =
     (snd (handler job),
      q\<lparr>now := now q + int (fst (handler job)),
        trace := trace q @ [Invoked (ID job) (Attempts job)]\<rparr>)"

text \<open>Lines 563 to 565: the job as the handler lookup and the handler see it.\<close>

definition mark_processing :: "'p Queue \<Rightarrow> 'p Job \<Rightarrow> 'p Job" where
  "mark_processing q job =
     job\<lparr>Status := StatusProcessing, UpdatedAt := now q, Attempts := Attempts job + 1\<rparr>"

text \<open>
  The body of \<open>processJob\<close> after the first locked section (lines 561 to 619): the
  statements in the order of the source.
\<close>

definition processJob_body :: "'p Queue \<Rightarrow> 'p Job \<Rightarrow> ('p Queue \<times> 'p Job) exit" where
  "processJob_body q job =
     (let job1 = mark_processing q job
      in case handlers q (Type job1) of
           None \<Rightarrow>
             Normal (bump_failed q,
                     job1\<lparr>Status := StatusFailed,
                          Error := ''no handler registered for job type: '' @ Type job1\<rparr>)
         | Some handler \<Rightarrow>
             (case invoke handler job1 q of
                (Panics msg, q1) \<Rightarrow> Panicking msg (q1, job1)
              | (Fails err, q1) \<Rightarrow>
                  (let job2 = job1\<lparr>Error := err\<rparr>
                   in if Attempts job2 <s MaxRetry job2
                      then (let job3 = job2\<lparr>Status := StatusRetrying\<rparr>;
                                q2 = Sleep (retry_delay (Attempts job3)) q1
                            in case try_send q2 job3 of
                                 Some q3 \<Rightarrow> Normal (bump_retried q3, job3)
                               | None \<Rightarrow>
                                   Normal (bump_failed q2, job3\<lparr>Status := StatusFailed\<rparr>))
                      else Normal (bump_failed q1, job2\<lparr>Status := StatusFailed\<rparr>))
              | (Succeeds, q1) \<Rightarrow>
                  Normal (bump_processed q1,
                          job1\<lparr>Status := StatusCompleted, UpdatedAt := now q1\<rparr>)))"

text \<open>
  \<open>processJob\<close>: \<open>Active++\<close>, the body, and the deferred \<open>Active--\<close>, which also runs
  when the handler panics, before the panic leaves the function.
\<close>

definition processJob :: "'p Queue \<Rightarrow> 'p Job \<Rightarrow> ('p Queue \<times> 'p Job) exit" where
  "processJob q job =
     (case processJob_body (bump_active q) job of
        Normal (q', job') \<Rightarrow> Normal (drop_active q', job')
      | Panicking msg (q', job') \<Rightarrow> Panicking msg (drop_active q', job'))"

subsection \<open>Push\<close>

text \<open>The Go \<open>error\<close> result is \<open>None\<close> for \<open>nil\<close> and \<open>Some\<close> of the message otherwise.\<close>

definition Push :: "'p Queue \<Rightarrow> string \<Rightarrow> 'p \<Rightarrow> 64 word \<Rightarrow> string option \<times> 'p Queue" where
  "Push q jobType payload maxRetry =
     (let job = \<lparr>ID = generateJobID (now q), Type = jobType, Payload = payload,
                 Attempts = 0, MaxRetry = maxRetry, CreatedAt = now q, UpdatedAt = now q,
                 Status = StatusPending, Error = ''''\<rparr>
      in case try_send q job of
           Some q' \<Rightarrow> (None, q')
         | None \<Rightarrow> (Some ''queue is full'', q))"

subsection \<open>The worker loop\<close>

text \<open>
  One worker on its own: \<open>for { select { case job := <-q.jobs: q.processJob(job, id) ... } }\<close>.
  The loop takes the oldest job of the channel and processes it, again and again. It is
  followed up to the first moment the channel is empty, where the worker blocks in the
  \<open>select\<close>; a panic of \<open>processJob\<close> is not recovered and leaves the loop. The
  second component collects the job records as each call of \<open>processJob\<close> left them.
\<close>

partial_function (option) worker ::
  "'p Queue \<Rightarrow> 'p Job list \<Rightarrow> ('p Queue \<times> 'p Job list) exit option" where
  "worker q handled =
     (case jobs q of
        [] \<Rightarrow> Some (Normal (q, handled))
      | job # rest \<Rightarrow>
          (case processJob (q\<lparr>jobs := rest\<rparr>) job of
             Panicking msg (q', job') \<Rightarrow> Some (Panicking msg (q', handled @ [job']))
           | Normal (q', job') \<Rightarrow> worker q' (handled @ [job'])))"

declare worker.simps [code]

fun is_call :: "event \<Rightarrow> bool" where
  "is_call (Invoked i a) = True"
| "is_call (Slept d) = False"

definition calls :: "event list \<Rightarrow> nat" where
  "calls es = length (filter is_call es)"

subsection \<open>One call of \<open>processJob\<close>, point by point\<close>

text \<open>
  Other goroutines run while a worker is inside \<open>processJob\<close>, so for the pool the call
  is followed from one point of control to the next: the call is made (before line 551);
  \<open>Active++\<close> is done (before line 563); the handler is running (line 581); the worker
  is in \<open>time.Sleep\<close> (line 591); the body is over, by a return or by a panic with its
  message, and the deferred function is still to run; the call is over. Each equation is
  the code between two such points.
\<close>

datatype 'p frame =
    Called "'p Job"
  | Entered "'p Job"
  | Handling "'p Job" "'p JobHandler"
  | Sleeping "'p Job" "64 word"
  | Exiting "string option" "'p Job"
  | Finished "string option" "'p Job"

fun processJob_step :: "'p Queue \<times> 'p frame \<Rightarrow> 'p Queue \<times> 'p frame" where
  "processJob_step (q, Called job) = (bump_active q, Entered job)"
| "processJob_step (q, Entered job) =
     (let job1 = mark_processing q job
      in case handlers q (Type job1) of
           None \<Rightarrow>
             (bump_failed q,
              Exiting None
                (job1\<lparr>Status := StatusFailed,
                      Error := ''no handler registered for job type: '' @ Type job1\<rparr>))
         | Some handler \<Rightarrow> (q, Handling job1 handler))"
| "processJob_step (q, Handling job1 handler) =
     (case invoke handler job1 q of
        (Panics msg, q1) \<Rightarrow> (q1, Exiting (Some msg) job1)
      | (Fails err, q1) \<Rightarrow>
          (let job2 = job1\<lparr>Error := err\<rparr>
           in if Attempts job2 <s MaxRetry job2
              then (q1, Sleeping (job2\<lparr>Status := StatusRetrying\<rparr>)
                          (retry_delay (Attempts job2)))
              else (bump_failed q1, Exiting None (job2\<lparr>Status := StatusFailed\<rparr>)))
      | (Succeeds, q1) \<Rightarrow>
          (bump_processed q1,
           Exiting None (job1\<lparr>Status := StatusCompleted, UpdatedAt := now q1\<rparr>)))"
| "processJob_step (q, Sleeping job3 delay) =
     (let q2 = Sleep delay q
      in case try_send q2 job3 of
           Some q3 \<Rightarrow> (bump_retried q3, Exiting None job3)
         | None \<Rightarrow> (bump_failed q2, Exiting None (job3\<lparr>Status := StatusFailed\<rparr>)))"
| "processJob_step (q, Exiting panic job) = (drop_active q, Finished panic job)"
| "processJob_step (q, Finished panic job) = (q, Finished panic job)"

text \<open>What a call that is over hands back: the result of \<open>processJob\<close>.\<close>

fun outcome :: "'p Queue \<times> 'p frame \<Rightarrow> ('p Queue \<times> 'p Job) exit option" where
  "outcome (q, Finished None job) = Some (Normal (q, job))"
| "outcome (q, Finished (Some msg) job) = Some (Panicking msg (q, job))"
| "outcome (q, Called job) = None"
| "outcome (q, Entered job) = None"
| "outcome (q, Handling job handler) = None"
| "outcome (q, Sleeping job delay) = None"
| "outcome (q, Exiting panic job) = None"

text \<open>The points between \<open>Active++\<close> and the deferred \<open>Active--\<close>.\<close>

fun between_locks :: "'p frame \<Rightarrow> bool" where
  "between_locks (Called job) = False"
| "between_locks (Entered job) = True"
| "between_locks (Handling job handler) = True"
| "between_locks (Sleeping job delay) = True"
| "between_locks (Exiting panic job) = True"
| "between_locks (Finished panic job) = False"

fun finished :: "'p frame \<Rightarrow> bool" where
  "finished (Finished panic job) = True"
| "finished (Called job) = False"
| "finished (Entered job) = False"
| "finished (Handling job handler) = False"
| "finished (Sleeping job delay) = False"
| "finished (Exiting panic job) = False"

subsection \<open>The worker pool\<close>

text \<open>
  \<open>Start\<close> spawns \<open>q.workers\<close> goroutines (none when the number is not positive). A
  worker goroutine waits in its \<open>select\<close>, or it has received a job and is at some point
  of its call of \<open>processJob\<close>, or a panic has ended it. An unrecovered panic ends the
  whole Go process.
\<close>

datatype 'p goroutine = Waiting | Inside "'p frame" | Dead

record 'p System =
  queue :: "'p Queue"
  pool :: "'p goroutine list"
  down :: bool

definition Start :: "'p Queue \<Rightarrow> 'p System" where
  "Start q = \<lparr>queue = q, pool = replicate (nat (sint (workers q))) Waiting, down = False\<rparr>"

definition Init :: "64 word \<Rightarrow> int \<Rightarrow> 'p System" where
  "Init n t = Start (NewQueue ''default'' n t)"

text \<open>
  The workers that \<open>Active\<close> should count, and among them those whose handler is
  running.
\<close>

fun in_processJob :: "'p goroutine \<Rightarrow> bool" where
  "in_processJob (Inside f) = between_locks f"
| "in_processJob Waiting = False"
| "in_processJob Dead = False"

fun in_handler :: "'p goroutine \<Rightarrow> bool" where
  "in_handler (Inside (Handling job handler)) = True"
| "in_handler (Inside (Called job)) = False"
| "in_handler (Inside (Entered job)) = False"
| "in_handler (Inside (Sleeping job delay)) = False"
| "in_handler (Inside (Exiting panic job)) = False"
| "in_handler (Inside (Finished panic job)) = False"
| "in_handler Waiting = False"
| "in_handler Dead = False"

definition busy :: "'p System \<Rightarrow> nat" where
  "busy s = length (filter in_processJob (pool s))"

definition handling :: "'p System \<Rightarrow> nat" where
  "handling s = length (filter in_handler (pool s))"

text \<open>Worker \<open>i\<close> goes on to the next point of its call.\<close>

definition advance :: "nat \<Rightarrow> 'p System \<Rightarrow> 'p System" where
  "advance i s =
     (case pool s ! i of
        Inside f \<Rightarrow>
          s\<lparr>queue := fst (processJob_step (queue s, f)),
            pool := (pool s)[i := Inside (snd (processJob_step (queue s, f)))]\<rparr>
      | Waiting \<Rightarrow> s
      | Dead \<Rightarrow> s)"

text \<open>
  The interleavings of the pool with its callers: producers push, handlers are
  registered, time passes, a waiting worker receives the oldest job, a worker inside
  \<open>processJob\<close> goes on to its next point, and a worker whose call is over goes back to
  its \<open>select\<close> or, when the call ended in a panic, ends with the process.
\<close>

inductive step :: "'p System \<Rightarrow> 'p System \<Rightarrow> bool" where
  push:
    "\<not> down s \<Longrightarrow>
     step s (s\<lparr>queue := snd (Push (queue s) jobType payload maxRetry)\<rparr>)"
| register:
    "\<not> down s \<Longrightarrow>
     step s (s\<lparr>queue := RegisterHandler (queue s) jobType handler\<rparr>)"
| tick:
    "\<not> down s \<Longrightarrow>
     step s (s\<lparr>queue := (queue s)\<lparr>now := now (queue s) + int d\<rparr>\<rparr>)"
| receive:
    "\<not> down s \<Longrightarrow> i < length (pool s) \<Longrightarrow> pool s ! i = Waiting \<Longrightarrow>
     jobs (queue s) = job # rest \<Longrightarrow>
     step s (s\<lparr>queue := (queue s)\<lparr>jobs := rest\<rparr>,
               pool := (pool s)[i := Inside (Called job)]\<rparr>)"
| move:
    "\<not> down s \<Longrightarrow> i < length (pool s) \<Longrightarrow> pool s ! i = Inside f \<Longrightarrow>
     \<not> finished f \<Longrightarrow>
     step s (advance i s)"
| loop:
    "\<not> down s \<Longrightarrow> i < length (pool s) \<Longrightarrow> pool s ! i = Inside (Finished None job) \<Longrightarrow>
     step s (s\<lparr>pool := (pool s)[i := Waiting]\<rparr>)"
| abort:
    "\<not> down s \<Longrightarrow> i < length (pool s) \<Longrightarrow>
     pool s ! i = Inside (Finished (Some msg) job) \<Longrightarrow>
     step s (s\<lparr>pool := (pool s)[i := Dead], down := True\<rparr>)"

inductive reachable :: "'p System \<Rightarrow> bool" where
  init: "reachable (Init n t)"
| after: "reachable s \<Longrightarrow> step s s' \<Longrightarrow> reachable s'"

subsection \<open>Example queues\<close>

definition boom :: "unit JobHandler" where
  "boom job = (5, Fails ''boom'')"

definition fresh_job :: "string \<Rightarrow> 64 word \<Rightarrow> unit Job" where
  "fresh_job jobType maxRetry =
     \<lparr>ID = ''job_100'', Type = jobType, Payload = (), Attempts = 0, MaxRetry = maxRetry,
      CreatedAt = 100, UpdatedAt = 100, Status = StatusPending, Error = ''''\<rparr>"

definition idle_queue :: "unit Queue" where
  "idle_queue = RegisterHandler (NewQueue ''default'' 2 100) ''always_fail'' boom"

definition full_queue :: "unit Queue" where
  "full_queue = idle_queue\<lparr>jobs := replicate 1000 (fresh_job ''always_fail'' 3)\<rparr>"

definition crash :: "unit JobHandler" where
  "crash job = (5, Panics ''boom'')"

definition crash_queue :: "unit Queue" where
  "crash_queue =
     (RegisterHandler idle_queue ''crash'' crash)
       \<lparr>jobs := [fresh_job ''crash'' 3, fresh_job ''always_fail'' 3]\<rparr>"

definition flaky :: "unit JobHandler" where
  "flaky job = (5, if sint (Attempts job) \<le> 2 then Fails ''not yet'' else Succeeds)"

definition flaky_queue :: "unit Queue" where
  "flaky_queue = RegisterHandler idle_queue ''flaky'' flaky"

definition retried_job :: "unit Job" where
  "retried_job = (fresh_job ''always_fail'' 5)\<lparr>Attempts := 2\<rparr>"

definition worn_job :: "unit Job" where
  "worn_job = (fresh_job ''always_fail'' 96040)\<lparr>Attempts := 96038\<rparr>"

definition started :: "unit System" where
  "started = Init 2 100"

definition registered :: "unit System" where
  "registered = started\<lparr>queue := RegisterHandler (queue started) ''always_fail'' boom\<rparr>"

definition offered :: "unit System" where
  "offered = registered\<lparr>queue := snd (Push (queue registered) ''always_fail'' () 3)\<rparr>"

definition fetched :: "unit System" where
  "fetched = offered\<lparr>queue := (queue offered)\<lparr>jobs := []\<rparr>,
                      pool := (pool offered)[0 := Inside (Called (fresh_job ''always_fail'' 3))]\<rparr>"

definition entered :: "unit System" where
  "entered = advance 0 fetched"

definition dispatched :: "unit System" where
  "dispatched = advance 0 entered"

definition asleep :: "unit System" where
  "asleep = advance 0 dispatched"

definition stray_offered :: "unit System" where
  "stray_offered = started\<lparr>queue := snd (Push (queue started) ''unknown'' () 3)\<rparr>"

definition stray_fetched :: "unit System" where
  "stray_fetched =
     stray_offered\<lparr>queue := (queue stray_offered)\<lparr>jobs := []\<rparr>,
                    pool := (pool stray_offered)[0 := Inside (Called (fresh_job ''unknown'' 3))]\<rparr>"

definition stray_entered :: "unit System" where
  "stray_entered = advance 0 stray_fetched"

definition stray_failed :: "unit System" where
  "stray_failed = advance 0 stray_entered"

section \<open>Properties\<close>

subsection \<open>The branches of \<open>processJob\<close>\<close>

lemmas stat_defs = bump_active_def drop_active_def bump_failed_def bump_retried_def bump_processed_def

lemma mark_processing_simps [simp]:
  "Attempts (mark_processing q job) = Attempts job + 1"
  "MaxRetry (mark_processing q job) = MaxRetry job"
  "Type (mark_processing q job) = Type job"
  "ID (mark_processing q job) = ID job"
  "Payload (mark_processing q job) = Payload job"
  "CreatedAt (mark_processing q job) = CreatedAt job"
  "UpdatedAt (mark_processing q job) = now q"
  "Status (mark_processing q job) = StatusProcessing"
  "Error (mark_processing q job) = Error job"
  "mark_processing (bump_active q) job = mark_processing q job"
  by (simp_all add: mark_processing_def bump_active_def)

lemma processJob_no_handler:
  assumes "handlers q (Type job) = None"
  shows "processJob q job =
    Normal (bump_failed q,
            (mark_processing q job)\<lparr>Status := StatusFailed,
               Error := ''no handler registered for job type: '' @ Type job\<rparr>)"
  using assms by (simp add: processJob_def processJob_body_def stat_defs mark_processing_def Let_def)

lemma processJob_exhausted:
  assumes "handlers q (Type job) = Some h"
    and "snd (h (mark_processing q job)) = Fails e"
    and "\<not> Attempts job + 1 <s MaxRetry job"
  shows "processJob q job =
    Normal (bump_failed (snd (invoke h (mark_processing q job) q)),
            (mark_processing q job)\<lparr>Error := e, Status := StatusFailed\<rparr>)"
  using assms by (simp add: processJob_def processJob_body_def stat_defs mark_processing_def Let_def invoke_def)

lemma processJob_succeeds:
  assumes "handlers q (Type job) = Some h"
    and "snd (h (mark_processing q job)) = Succeeds"
  shows "processJob q job =
    Normal (bump_processed (snd (invoke h (mark_processing q job) q)),
            (mark_processing q job)\<lparr>Status := StatusCompleted,
               UpdatedAt := now q + int (fst (h (mark_processing q job)))\<rparr>)"
  using assms by (simp add: processJob_def processJob_body_def stat_defs mark_processing_def Let_def invoke_def)

lemma processJob_panics:
  assumes "handlers q (Type job) = Some h"
    and "snd (h (mark_processing q job)) = Panics msg"
  shows "processJob q job =
    Panicking msg (snd (invoke h (mark_processing q job) q), mark_processing q job)"
  using assms by (simp add: processJob_def processJob_body_def stat_defs mark_processing_def Let_def invoke_def)

lemma processJob_requeued:
  assumes "handlers q (Type job) = Some h"
    and "snd (h (mark_processing q job)) = Fails e"
    and "Attempts job + 1 <s MaxRetry job"
    and "length (jobs q) < jobs_cap"
  shows "processJob q job =
    Normal (bump_retried
              ((Sleep (retry_delay (Attempts job + 1)) (snd (invoke h (mark_processing q job) q)))
                 \<lparr>jobs := jobs q @ [(mark_processing q job)\<lparr>Error := e, Status := StatusRetrying\<rparr>]\<rparr>),
            (mark_processing q job)\<lparr>Error := e, Status := StatusRetrying\<rparr>)"
  using assms by (simp add: processJob_def processJob_body_def stat_defs mark_processing_def Let_def invoke_def try_send_def Sleep_def)

lemma processJob_requeue_full:
  assumes "handlers q (Type job) = Some h"
    and "snd (h (mark_processing q job)) = Fails e"
    and "Attempts job + 1 <s MaxRetry job"
    and "\<not> length (jobs q) < jobs_cap"
  shows "processJob q job =
    Normal (bump_failed (Sleep (retry_delay (Attempts job + 1)) (snd (invoke h (mark_processing q job) q))),
            (mark_processing q job)\<lparr>Error := e, Status := StatusFailed\<rparr>)"
  using assms by (simp add: processJob_def processJob_body_def stat_defs mark_processing_def Let_def invoke_def try_send_def Sleep_def)

lemma field_simps_queue [simp]:
  "jobs (bump_active q) = jobs q" "handlers (bump_active q) = handlers q"
  "now (bump_active q) = now q" "trace (bump_active q) = trace q"
  "jobs (bump_failed q) = jobs q" "handlers (bump_failed q) = handlers q"
  "now (bump_failed q) = now q" "trace (bump_failed q) = trace q"
  "jobs (bump_retried q) = jobs q" "handlers (bump_retried q) = handlers q"
  "now (bump_retried q) = now q" "trace (bump_retried q) = trace q"
  "jobs (bump_processed q) = jobs q" "handlers (bump_processed q) = handlers q"
  "now (bump_processed q) = now q" "trace (bump_processed q) = trace q"
  by (simp_all add: stat_defs)

lemma stats_bump [simp]:
  "stats (bump_failed q) = (stats q)\<lparr>Failed := Failed (stats q) + 1\<rparr>"
  "stats (bump_retried q) = (stats q)\<lparr>Retried := Retried (stats q) + 1\<rparr>"
  "stats (bump_processed q) = (stats q)\<lparr>Processed := Processed (stats q) + 1\<rparr>"
  by (simp_all add: stat_defs)

lemma Sleep_fields [simp]:
  "jobs (Sleep d q) = jobs q" "handlers (Sleep d q) = handlers q"
  "stats (Sleep d q) = stats q" "trace (Sleep d q) = trace q @ [Slept d]"
  "now (Sleep d q) = now q + (if 0 <s d then sint d else 0)"
  by (simp_all add: Sleep_def)

lemma invoke_fields [simp]:
  "jobs (snd (invoke h job q)) = jobs q" "handlers (snd (invoke h job q)) = handlers q"
  "stats (snd (invoke h job q)) = stats q"
  "trace (snd (invoke h job q)) = trace q @ [Invoked (ID job) (Attempts job)]"
  "now (snd (invoke h job q)) = now q + int (fst (h job))"
  by (simp_all add: invoke_def)

lemma calls_simps [simp]:
  "calls [] = 0"
  "calls (es @ fs) = calls es + calls fs"
  "calls (Invoked i a # es) = Suc (calls es)"
  "calls (Slept d # es) = calls es"
  by (simp_all add: calls_def)

lemma mark_processing_jobs [simp]:
  "mark_processing (q\<lparr>jobs := js\<rparr>) job = mark_processing q job"
  by (simp add: mark_processing_def)

lemma drop_bump_active [simp]: "drop_active (bump_active q) = q"
  by (simp add: stat_defs)

subsection \<open>Signed 64-bit arithmetic\<close>

lemma sint_succ_below:
  fixes a m :: "64 word"
  assumes "sint a < sint m"
  shows "sint (a + 1) = sint a + 1"
proof -
  have "sint m < 2 ^ 63" using sint_less [of m] by simp
  moreover have "- (2 ^ 63) \<le> sint a" using sint_greater_eq [of a] by simp
  ultimately have "- (2 ^ 63) \<le> sint a + 1" and "sint a + 1 < 2 ^ 63"
    using assms by simp_all
  then have "signed_take_bit 63 (sint a + 1) = sint a + 1"
    by (simp add: signed_take_bit_int_eq_self)
  then show ?thesis by (simp add: sint_word_ariths)
qed

lemma sint_of_nat_small:
  assumes "n < 2 ^ 63"
  shows "sint (of_nat n :: 64 word) = int n"
proof -
  have "- (2 ^ 63) \<le> int n" by (rule order_trans [of _ 0]) simp_all
  moreover have "int n < 2 ^ 63" using assms by (simp add: of_nat_less_iff [of n "2 ^ 63", where ?'a = int, simplified])
  ultimately have "signed_take_bit 63 (int n) = int n"
    by (rule signed_take_bit_int_eq_self)
  then show ?thesis by (simp add: signed_of_nat)
qed

lemma retry_delay_exact:
  assumes "0 \<le> sint k" and "sint k \<le> 96038"
  shows "sint (retry_delay k) = (sint k)\<^sup>2 * 1000000000"
proof -
  define p where "p = sint k * sint k"
  have sq: "p \<le> 96038 * 96038"
    unfolding p_def using assms by (intro mult_mono) simp_all
  have nonneg: "0 \<le> p"
    unfolding p_def using assms(1) by simp
  have lo: "- (2 ^ 63) \<le> p"
    using nonneg by simp
  have hi: "p < 2 ^ 63"
    using sq by simp
  have "sint (k * k) = signed_take_bit 63 p"
    by (simp add: sint_word_ariths word_size p_def)
  then have kk: "sint (k * k) = p"
    using signed_take_bit_int_eq_self [OF lo hi] by simp
  have sec: "sint Second = 1000000000"
    by (simp add: Second_def)
  have lo': "- (2 ^ 63) \<le> p * 1000000000"
    using nonneg by simp
  have hi': "p * 1000000000 < 2 ^ 63"
    using sq by simp
  have "sint (k * k * Second) = signed_take_bit 63 (sint (k * k) * sint Second)"
    by (simp add: sint_word_ariths word_size)
  then have "sint (k * k * Second) = p * 1000000000"
    using signed_take_bit_int_eq_self [OF lo' hi'] by (simp add: kk sec)
  then show ?thesis
    by (simp add: retry_delay_def power2_eq_square p_def)
qed

subsection \<open>Unrolling the worker loop\<close>

lemma Push_empty:
  assumes "jobs q = []"
  shows "Push q jobType payload maxRetry =
    (None, q\<lparr>jobs := [\<lparr>ID = generateJobID (now q), Type = jobType, Payload = payload,
               Attempts = 0, MaxRetry = maxRetry, CreatedAt = now q, UpdatedAt = now q,
               Status = StatusPending, Error = []\<rparr>]\<rparr>)"
  using assms by (simp add: Push_def try_send_def jobs_cap_def)

lemma worker_final_failure:
  assumes "jobs q = [job]" and "handlers q (Type job) = Some h"
    and "snd (h (mark_processing q job)) = Fails e"
    and "\<not> Attempts job + 1 <s MaxRetry job"
  shows "worker q handled =
    Some (Normal (bump_failed (snd (invoke h (mark_processing q job) (q\<lparr>jobs := []\<rparr>))),
                  handled @ [(mark_processing q job)\<lparr>Error := e, Status := StatusFailed\<rparr>]))"
proof -
  have run: "processJob (q\<lparr>jobs := []\<rparr>) job =
      Normal (bump_failed (snd (invoke h (mark_processing q job) (q\<lparr>jobs := []\<rparr>))),
              (mark_processing q job)\<lparr>Error := e, Status := StatusFailed\<rparr>)"
    using processJob_exhausted [of "q\<lparr>jobs := []\<rparr>" job h e] assms by simp
  show ?thesis
    by (subst worker.simps, simp add: assms(1) run, subst worker.simps, simp)
qed

lemma worker_final_success:
  assumes "jobs q = [job]" and "handlers q (Type job) = Some h"
    and "snd (h (mark_processing q job)) = Succeeds"
  shows "worker q handled =
    Some (Normal (bump_processed (snd (invoke h (mark_processing q job) (q\<lparr>jobs := []\<rparr>))),
                  handled @ [(mark_processing q job)\<lparr>Status := StatusCompleted,
                     UpdatedAt := now q + int (fst (h (mark_processing q job)))\<rparr>]))"
proof -
  have run: "processJob (q\<lparr>jobs := []\<rparr>) job =
      Normal (bump_processed (snd (invoke h (mark_processing q job) (q\<lparr>jobs := []\<rparr>))),
              (mark_processing q job)\<lparr>Status := StatusCompleted,
                     UpdatedAt := now q + int (fst (h (mark_processing q job)))\<rparr>)"
    using processJob_succeeds [of "q\<lparr>jobs := []\<rparr>" job h] assms by simp
  show ?thesis
    by (subst worker.simps, simp add: assms(1) run, subst worker.simps, simp)
qed

lemma retries_unroll:
  assumes "jobs q = [job]" and "handlers q (Type job) = Some h"
    and "\<forall>j. sint (Attempts job) < sint (Attempts j) \<and>
             sint (Attempts j) \<le> sint (Attempts job) + int n \<longrightarrow> (\<exists>e. snd (h j) = Fails e)"
    and "sint (Attempts job) + int n < sint (MaxRetry job)"
  shows "\<exists>q' job' js. worker q handled = worker q' (handled @ js) \<and> length js = n \<and>
           jobs q' = [job'] \<and> handlers q' = handlers q \<and>
           Type job' = Type job \<and> MaxRetry job' = MaxRetry job \<and>
           sint (Attempts job') = sint (Attempts job) + int n \<and>
           Retried (stats q') = Retried (stats q) + of_nat n \<and>
           Failed (stats q') = Failed (stats q) \<and>
           Processed (stats q') = Processed (stats q) \<and>
           Active (stats q') = Active (stats q) \<and>
           calls (trace q') = calls (trace q) + n"
  using assms
proof (induction n arbitrary: q job handled)
  case 0
  then show ?case
    by (intro exI [of _ q] exI [of _ job] exI [of _ "[]"]) simp
next
  case (Suc n)
  let ?q0 = "q\<lparr>jobs := []\<rparr>"
  have below: "sint (Attempts job) < sint (MaxRetry job)"
    using Suc.prems(4) by simp
  have succ: "sint (Attempts job + 1) = sint (Attempts job) + 1"
    by (rule sint_succ_below [OF below])
  obtain e where e: "snd (h (mark_processing q job)) = Fails e"
    using Suc.prems(3) succ by (metis add_le_cancel_left mark_processing_simps(1) of_nat_Suc zle_iff_zadd zless_add1_eq)
  let ?job1 = "(mark_processing q job)\<lparr>Error := e, Status := StatusRetrying\<rparr>"
  let ?q1 = "bump_retried
              ((Sleep (retry_delay (Attempts job + 1)) (snd (invoke h (mark_processing q job) ?q0)))
                 \<lparr>jobs := [?job1]\<rparr>)"
  have less: "Attempts job + 1 <s MaxRetry job"
    using Suc.prems(4) succ by (simp add: word_sless_alt)
  have run: "processJob ?q0 job = Normal (?q1, ?job1)"
    using processJob_requeued [of ?q0 job h e] Suc.prems(2) e less
    by (simp add: jobs_cap_def)
  have unfold: "worker q handled = worker ?q1 (handled @ [?job1])"
    by (subst worker.simps) (simp add: Suc.prems(1) run)
  have "\<exists>q' job' js. worker ?q1 (handled @ [?job1]) = worker q' ((handled @ [?job1]) @ js) \<and>
           length js = n \<and>
           jobs q' = [job'] \<and> handlers q' = handlers ?q1 \<and>
           Type job' = Type ?job1 \<and> MaxRetry job' = MaxRetry ?job1 \<and>
           sint (Attempts job') = sint (Attempts ?job1) + int n \<and>
           Retried (stats q') = Retried (stats ?q1) + of_nat n \<and>
           Failed (stats q') = Failed (stats ?q1) \<and>
           Processed (stats q') = Processed (stats ?q1) \<and>
           Active (stats q') = Active (stats ?q1) \<and>
           calls (trace q') = calls (trace ?q1) + n"
  proof (rule Suc.IH)
    show "jobs ?q1 = [?job1]" by simp
    show "handlers ?q1 (Type ?job1) = Some h" using Suc.prems(2) by simp
    show "\<forall>j. sint (Attempts ?job1) < sint (Attempts j) \<and>
             sint (Attempts j) \<le> sint (Attempts ?job1) + int n \<longrightarrow> (\<exists>e. snd (h j) = Fails e)"
      using Suc.prems(3) succ by simp
    show "sint (Attempts ?job1) + int n < sint (MaxRetry ?job1)"
      using Suc.prems(4) succ by simp
  qed
  then obtain q' job' js where step:
    "worker ?q1 (handled @ [?job1]) = worker q' ((handled @ [?job1]) @ js)"
    "length js = n" "jobs q' = [job']" "handlers q' = handlers ?q1"
    "Type job' = Type ?job1" "MaxRetry job' = MaxRetry ?job1"
    "sint (Attempts job') = sint (Attempts ?job1) + int n"
    "Retried (stats q') = Retried (stats ?q1) + of_nat n"
    "Failed (stats q') = Failed (stats ?q1)"
    "Processed (stats q') = Processed (stats ?q1)"
    "Active (stats q') = Active (stats ?q1)"
    "calls (trace q') = calls (trace ?q1) + n"
    by blast
  show ?case
  proof (intro exI [of _ q'] exI [of _ job'] exI [of _ "?job1 # js"] conjI)
    show "worker q handled = worker q' (handled @ ?job1 # js)"
      using unfold step(1) by simp
    show "sint (Attempts job') = sint (Attempts job) + int (Suc n)"
      using step(7) succ by simp
    show "Retried (stats q') = Retried (stats q) + of_nat (Suc n)"
      using step(8) by simp
  qed (use step in simp_all)
qed

subsection \<open>The gauge of active workers\<close>

lemma count_update_gain:
  "i < length xs \<Longrightarrow> \<not> P (xs ! i) \<Longrightarrow> P x \<Longrightarrow>
   length (filter P (xs[i := x])) = Suc (length (filter P xs))"
proof (induction xs arbitrary: i)
  case Nil
  then show ?case by simp
next
  case (Cons y ys)
  then show ?case by (cases i) simp_all
qed

lemma count_update_same:
  "i < length xs \<Longrightarrow> P (xs ! i) = P x \<Longrightarrow>
   length (filter P (xs[i := x])) = length (filter P xs)"
proof (induction xs arbitrary: i)
  case Nil
  then show ?case by simp
next
  case (Cons y ys)
  then show ?case by (cases i) simp_all
qed

lemma count_update_loss:
  "i < length xs \<Longrightarrow> P (xs ! i) \<Longrightarrow> \<not> P x \<Longrightarrow>
   Suc (length (filter P (xs[i := x]))) = length (filter P xs)"
proof (induction xs arbitrary: i)
  case Nil
  then show ?case by simp
next
  case (Cons y ys)
  then show ?case by (cases i) simp_all
qed

lemma count_mono:
  assumes "\<And>x. P x \<Longrightarrow> Q x"
  shows "length (filter P xs) \<le> length (filter Q xs)"
  using assms by (induction xs) auto

lemma in_handler_in_processJob: "in_handler g \<Longrightarrow> in_processJob g"
  by (cases g rule: in_handler.cases) simp_all

lemma Push_keeps_gauge:
  "stats (snd (Push q jobType payload maxRetry)) = stats q"
  "workers (snd (Push q jobType payload maxRetry)) = workers q"
  by (simp_all add: Push_def try_send_def Let_def)

lemma body_keeps_gauge:
  assumes "left_behind (processJob_body q job) = (q', job')"
  shows "Active (stats q') = Active (stats q) \<and> workers q' = workers q"
  using assms
  by (auto simp: processJob_body_def Let_def invoke_def try_send_def Sleep_def stat_defs
      split: option.splits handler_result.splits if_splits)

text \<open>A step inside the body moves neither the gauge nor the worker out of the body.\<close>

lemma step_in_body:
  assumes "between_locks f" and "\<And>panic job. f \<noteq> Exiting panic job"
  shows "Active (stats (fst (processJob_step (q, f)))) = Active (stats q)"
    and "workers (fst (processJob_step (q, f))) = workers q"
    and "between_locks (snd (processJob_step (q, f)))"
  using assms
  by (cases f;
      auto simp: Let_def invoke_def try_send_def Sleep_def stat_defs
        split: option.splits handler_result.splits if_splits)+

lemma move_keeps_count:
  assumes "i < length (pool s)" and "pool s ! i = Inside f" and "\<not> finished f"
  shows "Active (stats (queue (advance i s))) + of_nat (busy s) =
           Active (stats (queue s)) + of_nat (busy (advance i s))"
    and "workers (queue (advance i s)) = workers (queue s)"
    and "length (pool (advance i s)) = length (pool s)"
proof -
  let ?q = "queue s"
  have adv: "advance i s =
      s\<lparr>queue := fst (processJob_step (?q, f)),
        pool := (pool s)[i := Inside (snd (processJob_step (?q, f)))]\<rparr>"
    using assms(2) by (simp add: advance_def)
  show "length (pool (advance i s)) = length (pool s)"
    by (simp add: adv)
  consider (call) job where "f = Called job"
    | (exit) panic job where "f = Exiting panic job"
    | (body) "between_locks f" "\<And>panic job. f \<noteq> Exiting panic job"
    using assms(3) by (cases f) auto
  then have "Active (stats (queue (advance i s))) + of_nat (busy s) =
               Active (stats (queue s)) + of_nat (busy (advance i s)) \<and>
             workers (queue (advance i s)) = workers (queue s)"
  proof cases
    case call
    have "busy (advance i s) = Suc (busy s)"
      using assms(1,2) call by (simp add: adv busy_def count_update_gain)
    then show ?thesis using call by (simp add: adv stat_defs)
  next
    case exit
    have "Suc (busy (advance i s)) = busy s"
      using assms(1,2) exit by (simp add: adv busy_def count_update_loss)
    then have "(of_nat (busy s) :: 64 word) = of_nat (busy (advance i s)) + 1"
      by (metis of_nat_Suc add.commute)
    then show ?thesis using exit by (simp add: adv stat_defs)
  next
    case body
    have "busy (advance i s) = busy s"
      using assms(1,2) body step_in_body(3) [OF body, of ?q]
      by (simp add: adv busy_def count_update_same)
    then show ?thesis
      using step_in_body(1,2) [OF body, of ?q] by (simp add: adv)
  qed
  then show "Active (stats (queue (advance i s))) + of_nat (busy s) =
               Active (stats (queue s)) + of_nat (busy (advance i s))"
    and "workers (queue (advance i s)) = workers (queue s)"
    by simp_all
qed

lemma pool_invariant:
  assumes "reachable s"
  shows "Active (stats (queue s)) = of_nat (busy s) \<and>
         length (pool s) = nat (sint (workers (queue s)))"
  using assms
proof (induction rule: reachable.induct)
  case (init n t)
  show ?case by (simp add: Init_def Start_def NewQueue_def busy_def)
next
  case (after s s')
  from after.hyps(2) after.IH show ?case
  proof (cases rule: step.cases)
    case (push jobType payload maxRetry)
    then show ?thesis using after.IH by (simp add: Push_keeps_gauge busy_def)
  next
    case (register jobType handler)
    then show ?thesis using after.IH by (simp add: RegisterHandler_def busy_def)
  next
    case (tick d)
    then show ?thesis using after.IH by (simp add: busy_def)
  next
    case (receive i job rest)
    have "busy s' = busy s"
      using receive by (simp add: busy_def count_update_same)
    then show ?thesis using receive after.IH by simp
  next
    case (move i f)
    have "Active (stats (queue s')) + of_nat (busy s) =
            Active (stats (queue s)) + of_nat (busy s')"
      and "workers (queue s') = workers (queue s)"
      and "length (pool s') = length (pool s)"
      using move_keeps_count [of i s f] move by simp_all
    then show ?thesis using after.IH by simp
  next
    case (loop i job)
    have "busy s' = busy s"
      using loop by (simp add: busy_def count_update_same)
    then show ?thesis using loop after.IH by simp
  next
    case (abort i msg job)
    have "busy s' = busy s"
      using abort by (simp add: busy_def count_update_same)
    then show ?thesis using abort after.IH by simp
  qed
qed

lemma processJob_keeps_gauge:
  "Active (stats (fst (left_behind (processJob q job)))) = Active (stats q)"
proof -
  obtain q' job' where b: "left_behind (processJob_body (bump_active q) job) = (q', job')"
    by (cases "left_behind (processJob_body (bump_active q) job)")
  have "Active (stats q') = Active (stats q) + 1"
    using body_keeps_gauge [OF b] by (simp add: stat_defs)
  moreover have "fst (left_behind (processJob q job)) = drop_active q'"
    using b by (cases "processJob_body (bump_active q) job") (auto simp: processJob_def)
  ultimately show ?thesis by (simp add: stat_defs)
qed

text \<open>Followed point by point to its end, a call gives what \<open>processJob\<close> gives.\<close>

lemma call_is_processJob:
  "outcome ((processJob_step ^^ 5) (q, Called job)) = Some (processJob q job)"
  by (simp add: eval_nat_numeral processJob_def processJob_body_def Let_def invoke_def
      split: option.splits handler_result.splits)

subsection \<open>The example queues\<close>

lemma generateJobID_100: "generateJobID 100 = ''job_100''"
  by code_simp

lemma idle_queue_fields:
  "jobs idle_queue = []" "handlers idle_queue ''always_fail'' = Some boom"
  "stats idle_queue = \<lparr>Processed = 0, Failed = 0, Retried = 0, Active = 0\<rparr>"
  "trace idle_queue = []" "now idle_queue = 100"
  by (simp_all add: idle_queue_def NewQueue_def RegisterHandler_def)

lemma flaky_queue_fields:
  "jobs flaky_queue = []" "handlers flaky_queue ''flaky'' = Some flaky"
  "stats flaky_queue = \<lparr>Processed = 0, Failed = 0, Retried = 0, Active = 0\<rparr>"
  "trace flaky_queue = []"
  by (simp_all add: flaky_queue_def idle_queue_def NewQueue_def RegisterHandler_def)

lemma started_fields:
  "queue started = NewQueue ''default'' 2 100" "pool started = [Waiting, Waiting]"
  "\<not> down started"
  by (simp_all add: started_def Init_def Start_def NewQueue_def numeral_2_eq_2)

lemma fetched_fields:
  "queue fetched = idle_queue"
  "pool fetched = [Inside (Called (fresh_job ''always_fail'' 3)), Waiting]"
  "\<not> down fetched"
  by (simp_all add: fetched_def offered_def registered_def started_fields idle_queue_def
      Push_def try_send_def jobs_cap_def NewQueue_def RegisterHandler_def)

lemma reachable_fetched: "reachable fetched"
proof -
  have r0: "reachable started"
    unfolding started_def by (rule reachable.init)
  have "step started registered"
    unfolding registered_def by (rule step.register) (simp add: started_fields)
  then have r1: "reachable registered"
    using r0 by (rule reachable.after [rotated])
  have "step registered offered"
    unfolding offered_def by (rule step.push) (simp add: registered_def started_fields)
  then have r2: "reachable offered"
    using r1 by (rule reachable.after [rotated])
  have js: "jobs (queue offered) = fresh_job ''always_fail'' 3 # []"
    by (simp add: offered_def registered_def started_fields NewQueue_def RegisterHandler_def
        Push_def try_send_def jobs_cap_def fresh_job_def generateJobID_100)
  have "step offered fetched"
    unfolding fetched_def
    by (rule step.receive [OF _ _ _ js])
      (simp_all add: offered_def registered_def started_fields)
  then show ?thesis
    using r2 by (rule reachable.after [rotated])
qed

lemma entered_fields:
  "queue entered = bump_active idle_queue"
  "pool entered = [Inside (Entered (fresh_job ''always_fail'' 3)), Waiting]"
  "\<not> down entered"
  by (simp_all add: entered_def advance_def fetched_fields)

lemma reachable_entered: "reachable entered"
proof -
  have "step fetched entered"
    unfolding entered_def
    by (rule step.move [of fetched 0 "Called (fresh_job ''always_fail'' 3)"])
      (simp_all add: fetched_fields)
  then show ?thesis
    using reachable_fetched by (rule reachable.after [rotated])
qed

lemma dispatched_fields:
  "queue dispatched = bump_active idle_queue"
  "\<not> down dispatched"
  by (simp_all add: dispatched_def advance_def entered_fields idle_queue_fields
      fresh_job_def)

lemma pool_dispatched:
  "pool dispatched =
     [Inside (Handling (mark_processing idle_queue (fresh_job ''always_fail'' 3)) boom),
      Waiting]"
  by (simp add: dispatched_def advance_def entered_fields idle_queue_fields fresh_job_def)

lemma reachable_dispatched: "reachable dispatched"
proof -
  have "step entered dispatched"
    unfolding dispatched_def
    by (rule step.move [of entered 0 "Entered (fresh_job ''always_fail'' 3)"])
      (simp_all add: entered_fields)
  then show ?thesis
    using reachable_entered by (rule reachable.after [rotated])
qed

lemma pool_asleep:
  "pool asleep =
     [Inside (Sleeping
        \<lparr>ID = ''job_100'', Type = ''always_fail'', Payload = (), Attempts = 1, MaxRetry = 3,
         CreatedAt = 100, UpdatedAt = 100, Status = StatusRetrying, Error = ''boom''\<rparr>
        1000000000),
      Waiting]"
  by (simp add: asleep_def advance_def pool_dispatched dispatched_fields invoke_def boom_def
      mark_processing_def fresh_job_def idle_queue_fields word_sless_alt retry_delay_def
      Second_def)

lemma active_asleep: "Active (stats (queue asleep)) = 1"
  by (simp add: asleep_def advance_def pool_dispatched dispatched_fields invoke_def boom_def
      mark_processing_def fresh_job_def idle_queue_fields word_sless_alt stat_defs)

lemma reachable_asleep: "reachable asleep"
proof -
  have "step dispatched asleep"
    unfolding asleep_def
    by (rule step.move [of dispatched 0
          "Handling (mark_processing idle_queue (fresh_job ''always_fail'' 3)) boom"])
      (simp_all add: pool_dispatched dispatched_fields)
  then show ?thesis
    using reachable_dispatched by (rule reachable.after [rotated])
qed

lemma stray_fetched_fields:
  "queue stray_fetched = NewQueue ''default'' 2 100"
  "pool stray_fetched = [Inside (Called (fresh_job ''unknown'' 3)), Waiting]"
  "\<not> down stray_fetched"
  by (simp_all add: stray_fetched_def stray_offered_def started_fields
      Push_def try_send_def jobs_cap_def NewQueue_def)

lemma stray_entered_fields:
  "queue stray_entered = bump_active (NewQueue ''default'' 2 100)"
  "pool stray_entered = [Inside (Entered (fresh_job ''unknown'' 3)), Waiting]"
  "\<not> down stray_entered"
  by (simp_all add: stray_entered_def advance_def stray_fetched_fields)

lemma pool_stray_failed:
  "pool stray_failed =
     [Inside (Exiting None
        \<lparr>ID = ''job_100'', Type = ''unknown'', Payload = (), Attempts = 1, MaxRetry = 3,
         CreatedAt = 100, UpdatedAt = 100, Status = StatusFailed,
         Error = ''no handler registered for job type: unknown''\<rparr>),
      Waiting]"
  by (simp add: stray_failed_def advance_def stray_entered_fields NewQueue_def
      mark_processing_def fresh_job_def stat_defs)

lemma active_stray_failed: "Active (stats (queue stray_failed)) = 1"
  by (simp add: stray_failed_def advance_def stray_entered_fields NewQueue_def
      mark_processing_def fresh_job_def stat_defs)

lemma handlers_stray_failed: "handlers (queue stray_failed) = Map.empty"
  by (simp add: stray_failed_def advance_def stray_entered_fields NewQueue_def
      mark_processing_def fresh_job_def stat_defs)

lemma reachable_stray_failed: "reachable stray_failed"
proof -
  have r0: "reachable started"
    unfolding started_def by (rule reachable.init)
  have "step started stray_offered"
    unfolding stray_offered_def by (rule step.push) (simp add: started_fields)
  then have r1: "reachable stray_offered"
    using r0 by (rule reachable.after [rotated])
  have js: "jobs (queue stray_offered) = fresh_job ''unknown'' 3 # []"
    by (simp add: stray_offered_def started_fields NewQueue_def
        Push_def try_send_def jobs_cap_def fresh_job_def generateJobID_100)
  have "step stray_offered stray_fetched"
    unfolding stray_fetched_def
    by (rule step.receive [OF _ _ _ js])
      (simp_all add: stray_offered_def started_fields)
  then have r2: "reachable stray_fetched"
    using r1 by (rule reachable.after [rotated])
  have "step stray_fetched stray_entered"
    unfolding stray_entered_def
    by (rule step.move [of stray_fetched 0 "Called (fresh_job ''unknown'' 3)"])
      (simp_all add: stray_fetched_fields)
  then have r3: "reachable stray_entered"
    using r2 by (rule reachable.after [rotated])
  have "step stray_entered stray_failed"
    unfolding stray_failed_def
    by (rule step.move [of stray_entered 0 "Entered (fresh_job ''unknown'' 3)"])
      (simp_all add: stray_entered_fields)
  then show ?thesis
    using r3 by (rule reachable.after [rotated])
qed

section \<open>The claims\<close>



text \<open>
  Claim C2. \<open>Push\<close> is a non-blocking enqueue on a channel of capacity 1000. When the
  buffer holds fewer jobs than the capacity, \<open>Push\<close> returns \<open>nil\<close>, \<open>Size()\<close> grows by one
  and the new pending job, with zero attempts, is the last of the buffer. When the buffer
  is full, \<open>Push\<close> returns the error \<open>queue is full\<close> at once and leaves the queue as it
  was: no job is enqueued and \<open>Size()\<close> does not grow.
\<close>

theorem Push_nonblocking:
  "jobs_cap = 1000 \<and>
   (Size q < jobs_cap \<longrightarrow>
      fst (Push q jobType payload maxRetry) = None \<and>
      Size (snd (Push q jobType payload maxRetry)) = Size q + 1 \<and>
      (\<exists>job. snd (Push q jobType payload maxRetry) = q\<lparr>jobs := jobs q @ [job]\<rparr> \<and>
             Type job = jobType \<and> Payload job = payload \<and> MaxRetry job = maxRetry \<and>
             Attempts job = 0 \<and> Status job = StatusPending)) \<and>
   (\<not> Size q < jobs_cap \<longrightarrow>
      fst (Push q jobType payload maxRetry) = Some ''queue is full'' \<and>
      snd (Push q jobType payload maxRetry) = q \<and>
      Size (snd (Push q jobType payload maxRetry)) = Size q)"
proof -
  let ?job = "\<lparr>ID = generateJobID (now q), Type = jobType, Payload = payload,
               Attempts = 0, MaxRetry = maxRetry, CreatedAt = now q, UpdatedAt = now q,
               Status = StatusPending, Error = []\<rparr>"
  have full: "\<not> Size q < jobs_cap \<Longrightarrow>
      Push q jobType payload maxRetry = (Some ''queue is full'', q)"
    by (simp add: Push_def try_send_def Size_def)
  have room: "Size q < jobs_cap \<Longrightarrow>
      Push q jobType payload maxRetry = (None, q\<lparr>jobs := jobs q @ [?job]\<rparr>)"
    by (simp add: Push_def try_send_def Size_def)
  have "Size q < jobs_cap \<Longrightarrow>
      \<exists>job. snd (Push q jobType payload maxRetry) = q\<lparr>jobs := jobs q @ [job]\<rparr> \<and>
             Type job = jobType \<and> Payload job = payload \<and> MaxRetry job = maxRetry \<and>
             Attempts job = 0 \<and> Status job = StatusPending"
    by (rule exI [of _ ?job]) (simp add: room)
  then show ?thesis
    using full room by (simp add: jobs_cap_def Size_def)
qed

text \<open>Both cases at work: a push into the empty queue and one into a full queue.\<close>

theorem Push_nonblocking_witness:
  "Size idle_queue < jobs_cap \<and>
   fst (Push idle_queue ''noop'' () 3) = None \<and>
   Size (snd (Push idle_queue ''noop'' () 3)) = 1 \<and>
   \<not> Size full_queue < jobs_cap \<and>
   fst (Push full_queue ''noop'' () 3) = Some ''queue is full'' \<and>
   snd (Push full_queue ''noop'' () 3) = full_queue"
proof -
  have empty: "Size idle_queue = 0"
    by (simp add: Size_def idle_queue_def NewQueue_def RegisterHandler_def)
  have a: "Size idle_queue < jobs_cap"
    by (simp add: empty jobs_cap_def)
  have b: "\<not> Size full_queue < jobs_cap"
    by (simp add: Size_def full_queue_def jobs_cap_def)
  have "fst (Push idle_queue ''noop'' () 3) = None \<and>
        Size (snd (Push idle_queue ''noop'' () 3)) = Size idle_queue + 1"
    using Push_nonblocking [of idle_queue "''noop''" "()" 3] a by blast
  moreover have "fst (Push full_queue ''noop'' () 3) = Some ''queue is full'' \<and>
        snd (Push full_queue ''noop'' () 3) = full_queue"
    using Push_nonblocking [of full_queue "''noop''" "()" 3] b by blast
  ultimately show ?thesis
    using a b empty by simp
qed

text \<open>
  Claim C3, as the code has it. A job whose type has no registered handler is marked
  failed with the message \<open>no handler registered for job type: T\<close>; \<open>Failed\<close> grows by
  one, \<open>Retried\<close> and \<open>Processed\<close> stay, no handler runs, nothing sleeps, the job is not
  sent back to the channel. The attempts counter, however, has been incremented by then:
  \<open>job.Attempts++\<close> comes before the lookup.
\<close>

theorem no_handler_marks_failed:
  assumes "handlers q (Type job) = None"
  shows "\<exists>q' job'. processJob q job = Normal (q', job') \<and>
           Status job' = StatusFailed \<and>
           Error job' = ''no handler registered for job type: '' @ Type job \<and>
           Attempts job' = Attempts job + 1 \<and>
           Failed (stats q') = Failed (stats q) + 1 \<and>
           Retried (stats q') = Retried (stats q) \<and>
           Processed (stats q') = Processed (stats q) \<and>
           Active (stats q') = Active (stats q) \<and>
           trace q' = trace q \<and> jobs q' = jobs q \<and> now q' = now q"
  using processJob_no_handler [OF assms] by simp

text \<open>A fresh job of an unknown type on a queue that only knows \<open>always_fail\<close>.\<close>

theorem no_handler_marks_failed_witness:
  "handlers idle_queue (Type (fresh_job ''unknown'' 3)) = None \<and>
   \<not> panicked (processJob idle_queue (fresh_job ''unknown'' 3)) \<and>
   Status (snd (left_behind (processJob idle_queue (fresh_job ''unknown'' 3)))) = StatusFailed \<and>
   Error (snd (left_behind (processJob idle_queue (fresh_job ''unknown'' 3)))) =
     ''no handler registered for job type: unknown'' \<and>
   Attempts (snd (left_behind (processJob idle_queue (fresh_job ''unknown'' 3)))) = 1 \<and>
   Failed (stats (fst (left_behind (processJob idle_queue (fresh_job ''unknown'' 3))))) = 1 \<and>
   Retried (stats (fst (left_behind (processJob idle_queue (fresh_job ''unknown'' 3))))) = 0 \<and>
   trace (fst (left_behind (processJob idle_queue (fresh_job ''unknown'' 3)))) = []"
proof -
  have h: "handlers idle_queue (Type (fresh_job ''unknown'' 3)) = None"
    by (simp add: idle_queue_def fresh_job_def NewQueue_def RegisterHandler_def)
  obtain q' job' where r: "processJob idle_queue (fresh_job ''unknown'' 3) = Normal (q', job')"
    and p: "Status job' = StatusFailed"
      "Error job' = ''no handler registered for job type: '' @ Type (fresh_job ''unknown'' 3)"
      "Attempts job' = Attempts (fresh_job ''unknown'' 3) + 1"
      "Failed (stats q') = Failed (stats idle_queue) + 1"
      "Retried (stats q') = Retried (stats idle_queue)"
      "trace q' = trace idle_queue"
    using no_handler_marks_failed [OF h] by blast
  show ?thesis
    using h p by (simp add: r) (simp add: idle_queue_def fresh_job_def NewQueue_def RegisterHandler_def)
qed

text \<open>
  The same job shows that the attempts counter does not stay at its value: it is 0
  before \<open>processJob\<close> and 1 after, although no handler is registered.
\<close>

theorem no_handler_attempt_counted:
  "handlers idle_queue (Type (fresh_job ''unknown'' 3)) = None \<and>
   Attempts (fresh_job ''unknown'' 3) = 0 \<and>
   Attempts (snd (left_behind (processJob idle_queue (fresh_job ''unknown'' 3)))) = 1"
  by (simp add: processJob_no_handler idle_queue_def fresh_job_def NewQueue_def
      RegisterHandler_def)




text \<open>
  Claim C5. The handler fails and the retry budget is not used up (\<open>Attempts < MaxRetry\<close>
  after the increment), but the channel is full when the job is sent back: the job is
  marked failed, \<open>Failed\<close> grows by one, \<open>Retried\<close> stays, and the channel is as before,
  so the job is in no buffer and no worker will see it again.
\<close>

theorem requeue_into_full_channel_fails:
  assumes "handlers q (Type job) = Some h"
    and "snd (h (mark_processing q job)) = Fails e"
    and "Attempts job + 1 <s MaxRetry job"
    and "Size q = jobs_cap"
  shows "\<exists>q' job'. processJob q job = Normal (q', job') \<and>
           Status job' = StatusFailed \<and>
           Attempts job' = Attempts job + 1 \<and> Attempts job' <s MaxRetry job' \<and>
           Failed (stats q') = Failed (stats q) + 1 \<and>
           Retried (stats q') = Retried (stats q) \<and>
           Processed (stats q') = Processed (stats q) \<and>
           jobs q' = jobs q"
  using processJob_requeue_full [OF assms(1-3)] assms(3,4) by (simp add: Size_def)

text \<open>A failing job with budget 3 processed while the channel holds 1000 jobs.\<close>

theorem requeue_into_full_channel_fails_witness:
  "handlers full_queue (Type (fresh_job ''always_fail'' 3)) = Some boom \<and>
   snd (boom (mark_processing full_queue (fresh_job ''always_fail'' 3))) = Fails ''boom'' \<and>
   Attempts (fresh_job ''always_fail'' 3) + 1 <s MaxRetry (fresh_job ''always_fail'' 3) \<and>
   Size full_queue = jobs_cap \<and>
   \<not> panicked (processJob full_queue (fresh_job ''always_fail'' 3)) \<and>
   Status (snd (left_behind (processJob full_queue (fresh_job ''always_fail'' 3)))) = StatusFailed \<and>
   Failed (stats (fst (left_behind (processJob full_queue (fresh_job ''always_fail'' 3))))) = 1 \<and>
   Retried (stats (fst (left_behind (processJob full_queue (fresh_job ''always_fail'' 3))))) = 0 \<and>
   jobs (fst (left_behind (processJob full_queue (fresh_job ''always_fail'' 3)))) = jobs full_queue"
proof -
  have a: "handlers full_queue (Type (fresh_job ''always_fail'' 3)) = Some boom"
    by (simp add: full_queue_def idle_queue_def fresh_job_def NewQueue_def RegisterHandler_def)
  have b: "snd (boom (mark_processing full_queue (fresh_job ''always_fail'' 3))) = Fails ''boom''"
    by (simp add: boom_def)
  have c: "Attempts (fresh_job ''always_fail'' 3) + 1 <s MaxRetry (fresh_job ''always_fail'' 3)"
    by (simp add: fresh_job_def word_sless_alt)
  have d: "Size full_queue = jobs_cap"
    by (simp add: Size_def full_queue_def jobs_cap_def)
  obtain q' job' where r: "processJob full_queue (fresh_job ''always_fail'' 3) = Normal (q', job')"
    and p: "Status job' = StatusFailed"
      "Failed (stats q') = Failed (stats full_queue) + 1"
      "Retried (stats q') = Retried (stats full_queue)"
      "jobs q' = jobs full_queue"
    using requeue_into_full_channel_fails [OF a b c d] by blast
  have z: "Failed (stats full_queue) = 0" "Retried (stats full_queue) = 0"
    by (simp_all add: full_queue_def idle_queue_def NewQueue_def RegisterHandler_def)
  show ?thesis
    using a b c d p z by (simp add: r)
qed

text \<open>
  Claim C6, as the code has it. Nothing in the queue recovers a panic. When the handler
  of the oldest job panics, the deferred function of \<open>processJob\<close> puts \<open>Active\<close> back,
  and the panic then leaves \<open>processJob\<close> and the worker's loop: the worker ends without
  fetching the jobs that are still in the channel. The job is left in status processing
  with its attempt counted, and no counter of the statistics has changed.
\<close>

theorem handler_panic_ends_the_worker:
  assumes "jobs q = job # rest"
    and "handlers q (Type job) = Some h"
    and "snd (h (mark_processing q job)) = Panics msg"
  shows "\<exists>q' job'.
           processJob (q\<lparr>jobs := rest\<rparr>) job = Panicking msg (q', job') \<and>
           worker q handled = Some (Panicking msg (q', handled @ [job'])) \<and>
           jobs q' = rest \<and> stats q' = stats q \<and>
           Status job' = StatusProcessing \<and> Attempts job' = Attempts job + 1"
proof -
  let ?q' = "snd (invoke h (mark_processing q job) (q\<lparr>jobs := rest\<rparr>))"
  have run: "processJob (q\<lparr>jobs := rest\<rparr>) job = Panicking msg (?q', mark_processing q job)"
    using processJob_panics [of "q\<lparr>jobs := rest\<rparr>" job h msg] assms by simp
  have loop: "worker q handled = Some (Panicking msg (?q', handled @ [mark_processing q job]))"
    by (subst worker.simps) (simp add: assms(1) run)
  show ?thesis
    using run loop by simp
qed

text \<open>A queue with a panicking handler for the first of its two jobs.\<close>

theorem handler_panic_ends_the_worker_witness:
  "jobs crash_queue = [fresh_job ''crash'' 3, fresh_job ''always_fail'' 3] \<and>
   worker crash_queue [] \<noteq> None \<and>
   panicked (the (worker crash_queue [])) \<and>
   stats (fst (left_behind (the (worker crash_queue [])))) = stats crash_queue \<and>
   jobs (fst (left_behind (the (worker crash_queue [])))) = [fresh_job ''always_fail'' 3]"
proof -
  have a: "jobs crash_queue = fresh_job ''crash'' 3 # [fresh_job ''always_fail'' 3]"
    by (simp add: crash_queue_def)
  have b: "handlers crash_queue (Type (fresh_job ''crash'' 3)) = Some crash"
    by (simp add: crash_queue_def RegisterHandler_def fresh_job_def)
  have c: "snd (crash (mark_processing crash_queue (fresh_job ''crash'' 3))) = Panics ''boom''"
    by (simp add: crash_def)
  obtain q' job' where r: "worker crash_queue [] = Some (Panicking ''boom'' (q', [] @ [job']))"
    and p: "jobs q' = [fresh_job ''always_fail'' 3]" "stats q' = stats crash_queue"
    using handler_panic_ends_the_worker [OF a b c, of "[]"] by blast
  show ?thesis
    using a p by (simp add: r)
qed

text \<open>
  On that queue the loop ends in a panic: the second job stays in the channel, the first
  job is not marked failed and \<open>Failed\<close> is still 0. No guard has turned the panic into a
  failure of the handler, and the worker does not go on.
\<close>

theorem handler_panic_stops_fetching:
  "worker crash_queue [] \<noteq> None \<and>
   panicked (the (worker crash_queue [])) \<and>
   jobs (fst (left_behind (the (worker crash_queue [])))) = [fresh_job ''always_fail'' 3] \<and>
   map Status (snd (left_behind (the (worker crash_queue [])))) = [StatusProcessing] \<and>
   Failed (stats (fst (left_behind (the (worker crash_queue []))))) = 0"
proof -
  have a: "jobs crash_queue = fresh_job ''crash'' 3 # [fresh_job ''always_fail'' 3]"
    by (simp add: crash_queue_def)
  have b: "handlers crash_queue (Type (fresh_job ''crash'' 3)) = Some crash"
    by (simp add: crash_queue_def RegisterHandler_def fresh_job_def)
  have c: "snd (crash (mark_processing crash_queue (fresh_job ''crash'' 3))) = Panics ''boom''"
    by (simp add: crash_def)
  have z: "Failed (stats crash_queue) = 0"
    by (simp add: crash_queue_def idle_queue_def NewQueue_def RegisterHandler_def)
  let ?q' = "snd (invoke crash (mark_processing crash_queue (fresh_job ''crash'' 3))
                 (crash_queue\<lparr>jobs := [fresh_job ''always_fail'' 3]\<rparr>))"
  have run: "processJob (crash_queue\<lparr>jobs := [fresh_job ''always_fail'' 3]\<rparr>) (fresh_job ''crash'' 3) =
      Panicking ''boom'' (?q', mark_processing crash_queue (fresh_job ''crash'' 3))"
    using processJob_panics [of "crash_queue\<lparr>jobs := [fresh_job ''always_fail'' 3]\<rparr>"
        "fresh_job ''crash'' 3" crash "''boom''"] b c by simp
  have "worker crash_queue [] =
      Some (Panicking ''boom'' (?q', [mark_processing crash_queue (fresh_job ''crash'' 3)]))"
    by (subst worker.simps) (simp add: a run)
  then show ?thesis
    using z by simp
qed



text \<open>
  Claim C8, as the code has it. In every state that the pool reaches from \<open>Init\<close>,
  \<open>Active\<close> is the number of workers that are inside \<open>processJob\<close> between its
  increment and its deferred decrement: it is never negative, never above the number of
  workers that \<open>Start\<close> spawned, at least the number of workers whose handler is running,
  and it is 0 exactly when no worker is between the two. The first step of a call is the
  increment and the last one, after a return as after a panic, the decrement; followed
  point by point, a call is \<open>processJob\<close>, and a whole call leaves \<open>Active\<close> as it found
  it.
\<close>

theorem active_gauge_counts_workers_in_processJob:
  assumes "reachable s"
  shows "sint (Active (stats (queue s))) = int (busy s) \<and>
         0 \<le> sint (Active (stats (queue s))) \<and>
         sint (Active (stats (queue s))) \<le> int (length (pool s)) \<and>
         length (pool s) = nat (sint (workers (queue s))) \<and>
         (busy s = 0 \<longleftrightarrow> Active (stats (queue s)) = 0) \<and>
         int (handling s) \<le> sint (Active (stats (queue s))) \<and>
         outcome ((processJob_step ^^ 5) (q, Called job)) = Some (processJob q job) \<and>
         Active (stats (fst (processJob_step (q, Called job)))) = Active (stats q) + 1 \<and>
         Active (stats (fst (processJob_step (q, Exiting panic job)))) = Active (stats q) - 1 \<and>
         Active (stats (fst (left_behind (processJob q job)))) = Active (stats q)"
proof -
  have inv: "Active (stats (queue s)) = of_nat (busy s)"
    "length (pool s) = nat (sint (workers (queue s)))"
    using pool_invariant [OF assms] by simp_all
  have "sint (workers (queue s)) < 2 ^ 63"
    using sint_less [of "workers (queue s)"] by simp
  then have small: "length (pool s) < 2 ^ 63"
    using inv(2) by simp
  have le: "busy s \<le> length (pool s)"
    by (simp add: busy_def)
  then have "busy s < 2 ^ 63" using small by simp
  then have val: "sint (Active (stats (queue s))) = int (busy s)"
    using inv(1) sint_of_nat_small by simp
  have zero: "busy s = 0 \<longleftrightarrow> Active (stats (queue s)) = 0"
    using val by (metis int_ops(1) of_nat_eq_iff sint_0 signed_word_eqI)
  have upper: "sint (Active (stats (queue s))) \<le> int (length (pool s))"
    using val le by simp
  have lower: "0 \<le> sint (Active (stats (queue s)))"
    using val by simp
  have "handling s \<le> busy s"
    unfolding handling_def busy_def by (rule count_mono) (rule in_handler_in_processJob)
  then have run: "int (handling s) \<le> sint (Active (stats (queue s)))"
    using val by simp
  have first: "Active (stats (fst (processJob_step (q, Called job)))) = Active (stats q) + 1"
    by (simp add: stat_defs)
  have last: "Active (stats (fst (processJob_step (q, Exiting panic job)))) =
      Active (stats q) - 1"
    by (simp add: stat_defs)
  show ?thesis
    using val lower upper inv(2) zero run first last
      call_is_processJob [of q job] processJob_keeps_gauge [of q job]
    by blast
qed

text \<open>Two workers, one job pushed, received and handed to its handler.\<close>

theorem active_gauge_counts_workers_in_processJob_witness:
  "reachable dispatched \<and> busy dispatched = 1 \<and> handling dispatched = 1 \<and>
   length (pool dispatched) = 2 \<and> sint (Active (stats (queue dispatched))) = 1"
proof -
  have b: "busy dispatched = 1"
    by (simp add: pool_dispatched busy_def)
  have h: "handling dispatched = 1"
    by (simp add: pool_dispatched handling_def)
  have l: "length (pool dispatched) = 2"
    by (simp add: pool_dispatched)
  show ?thesis
    using reachable_dispatched b h l
      active_gauge_counts_workers_in_processJob
        [OF reachable_dispatched, of idle_queue "fresh_job ''always_fail'' 3" None]
    by simp
qed

text \<open>
  The claim itself says that \<open>Active\<close> is back at 0 whenever no worker is executing a
  handler. Two reachable states say otherwise. In the first the handler has failed and
  the worker is in the back-off sleep of line 591; in the second no handler is registered
  at all and the job has been marked failed (line 572). In both no handler is running and
  \<open>Active\<close> is 1: the deferred decrement has not run yet.
\<close>

theorem active_stays_up_without_running_handler:
  "reachable asleep \<and>
   pool asleep =
     [Inside (Sleeping
        \<lparr>ID = ''job_100'', Type = ''always_fail'', Payload = (), Attempts = 1, MaxRetry = 3,
         CreatedAt = 100, UpdatedAt = 100, Status = StatusRetrying, Error = ''boom''\<rparr>
        1000000000),
      Waiting] \<and>
   handling asleep = 0 \<and> Active (stats (queue asleep)) = 1 \<and>
   reachable stray_failed \<and>
   pool stray_failed =
     [Inside (Exiting None
        \<lparr>ID = ''job_100'', Type = ''unknown'', Payload = (), Attempts = 1, MaxRetry = 3,
         CreatedAt = 100, UpdatedAt = 100, Status = StatusFailed,
         Error = ''no handler registered for job type: unknown''\<rparr>),
      Waiting] \<and>
   handlers (queue stray_failed) ''unknown'' = None \<and>
   handling stray_failed = 0 \<and> Active (stats (queue stray_failed)) = 1"
  using reachable_asleep reachable_stray_failed
  by (simp add: pool_asleep pool_stray_failed handling_def active_asleep active_stray_failed
      handlers_stray_failed)

text \<open>
  Claim C9 against the code. \<open>UpdatedAt\<close> is written when a job becomes processing and
  when it becomes completed, but on no path to failed or retrying. A handler that takes
  5 ns and fails, on a queue whose clock shows 100: with \<open>maxRetry = 1\<close> the job is marked
  failed at 105, with \<open>maxRetry = 3\<close> it is marked retrying at 105 and sent back after one
  second of sleep; both records still carry \<open>UpdatedAt = 100\<close>, the time they became
  processing.
\<close>

theorem failed_job_keeps_old_timestamp:
  "Status (snd (left_behind (processJob idle_queue (fresh_job ''always_fail'' 1)))) = StatusFailed \<and>
   UpdatedAt (snd (left_behind (processJob idle_queue (fresh_job ''always_fail'' 1)))) = 100 \<and>
   now (fst (left_behind (processJob idle_queue (fresh_job ''always_fail'' 1)))) = 105 \<and>
   Status (snd (left_behind (processJob idle_queue (fresh_job ''always_fail'' 3)))) = StatusRetrying \<and>
   UpdatedAt (snd (left_behind (processJob idle_queue (fresh_job ''always_fail'' 3)))) = 100 \<and>
   now (fst (left_behind (processJob idle_queue (fresh_job ''always_fail'' 3)))) = 1000000105"
proof -
  have a: "handlers idle_queue (Type (fresh_job ''always_fail'' m)) = Some boom" for m
    by (simp add: idle_queue_def fresh_job_def NewQueue_def RegisterHandler_def)
  have b: "snd (boom (mark_processing idle_queue (fresh_job ''always_fail'' m))) = Fails ''boom''" for m
    by (simp add: boom_def)
  have c1: "\<not> Attempts (fresh_job ''always_fail'' 1) + 1 <s MaxRetry (fresh_job ''always_fail'' 1)"
    by (simp add: fresh_job_def word_sless_alt)
  have c3: "Attempts (fresh_job ''always_fail'' 3) + 1 <s MaxRetry (fresh_job ''always_fail'' 3)"
    by (simp add: fresh_job_def word_sless_alt)
  have d: "length (jobs idle_queue) < jobs_cap"
    by (simp add: idle_queue_def NewQueue_def RegisterHandler_def jobs_cap_def)
  have n: "now idle_queue = 100"
    by (simp add: idle_queue_def NewQueue_def RegisterHandler_def)
  have z: "Attempts (fresh_job ''always_fail'' 3) = 0"
    by (simp add: fresh_job_def)
  have v: "sint (retry_delay 1) = 1000000000"
    by (simp add: retry_delay_def Second_def)
  show ?thesis
    using n z v
    by (simp add: processJob_exhausted [OF a b c1] processJob_requeued [OF a b c3 d]
        word_sless_alt boom_def)
qed



end
